theory Spec2Isabelle
  imports Main "HOL-Library.Sublist"
begin

section \<open>Strings, paths and the file system\<close>

text \<open>
  A Python \<open>str\<close> is a sequence of Unicode code points; the log uses U+200E, which is
  no byte, so a character is its code point.
\<close>

type_synonym ustring = "nat list"

definition ustr :: "string \<Rightarrow> ustring" where
  "ustr s = map of_char s"

definition LRM :: nat where
  \<comment> \<open>U+200E, the left-to-right mark that opens a system line\<close>
  "LRM = 8206"

fun contains :: "ustring \<Rightarrow> ustring \<Rightarrow> bool" where
  \<comment> \<open>\<open>sub in s\<close>\<close>
  "contains sub [] = (sub = [])"
| "contains sub (x # xs) = (prefix sub (x # xs) \<or> contains sub xs)"

definition replace_slash :: "ustring \<Rightarrow> ustring" where
  \<comment> \<open>\<open>message.replace("/", "_")\<close>\<close>
  "replace_slash s = map (\<lambda>c. if c = 47 then 95 else c) s"

definition strip :: "(nat \<Rightarrow> bool) \<Rightarrow> ustring \<Rightarrow> ustring" where
  \<comment> \<open>\<open>message.strip()\<close>, for the whitespace table of the interpreter\<close>
  "strip sp s = rev (dropWhile sp (rev (dropWhile sp s)))"

fun rfind :: "nat \<Rightarrow> ustring \<Rightarrow> nat option" where
  \<comment> \<open>\<open>s.rfind(c)\<close>, with None for -1\<close>
  "rfind c [] = None"
| "rfind c (x # xs) =
     (case rfind c xs of Some i \<Rightarrow> Some (Suc i)
      | None \<Rightarrow> if x = c then Some 0 else None)"

fun split_on :: "nat \<Rightarrow> ustring \<Rightarrow> ustring list" where
  \<comment> \<open>\<open>s.split(c)\<close>\<close>
  "split_on c [] = [[]]"
| "split_on c (x # xs) =
     (if x = c then [] # split_on c xs
      else (case split_on c xs of [] \<Rightarrow> [[x]] | p # ps \<Rightarrow> (x # p) # ps))"

subsection \<open>pathlib.PurePosixPath\<close>

record path =
  root :: ustring
  parts :: "ustring list"

definition splitroot :: "ustring \<Rightarrow> ustring" where
  \<comment> \<open>the root of a POSIX path string: none, one slash, or exactly two\<close>
  "splitroot p =
     (if take 1 p \<noteq> [47] then []
      else if take 1 (drop 1 p) \<noteq> [47] \<or> take 1 (drop 2 p) = [47] then [47]
      else [47, 47])"

definition parse_path :: "ustring \<Rightarrow> path" where
  "parse_path p =
     \<lparr>root = splitroot p, parts = filter (\<lambda>x. x \<noteq> [] \<and> x \<noteq> [46]) (split_on 47 p)\<rparr>"

definition joinpath :: "path \<Rightarrow> ustring \<Rightarrow> path" where
  \<comment> \<open>\<open>base / s\<close>: an absolute \<open>s\<close> replaces the base\<close>
  "joinpath base s =
     (if take 1 s = [47] then parse_path s
      else \<lparr>root = root base, parts = parts base @ parts (parse_path s)\<rparr>)"

definition name :: "path \<Rightarrow> ustring" where
  \<comment> \<open>\<open>p.name\<close>: the final component, empty when there is none\<close>
  "name p = (if parts p = [] then [] else last (parts p))"

definition suffix_of :: "path \<Rightarrow> ustring" where
  \<comment> \<open>\<open>p.suffix\<close>: from the last dot of the name, unless the dot is first or last\<close>
  "suffix_of p =
     (case rfind 46 (name p) of
        None \<Rightarrow> []
      | Some i \<Rightarrow> if 0 < i \<and> i < length (name p) - 1 then drop i (name p) else [])"

definition component :: "ustring \<Rightarrow> bool" where
  \<comment> \<open>what pathlib keeps as one part of a path: not empty, not a lone dot, no slash\<close>
  "component s = (s \<noteq> [] \<and> s \<noteq> [46] \<and> 47 \<notin> set s)"

datatype exn = IndexError | ValueError | FileNotFoundError | FileExistsError | ShutilError

definition with_suffix :: "path \<Rightarrow> ustring \<Rightarrow> exn + path" where
  \<comment> \<open>\<open>p.with_suffix(s)\<close> for a well-formed \<open>s\<close>: raises on a path with an empty name\<close>
  "with_suffix p s =
     (if name p = [] then Inl ValueError
      else Inr (p\<lparr>parts := butlast (parts p) @
                  [take (length (name p) - length (suffix_of p)) (name p) @ s]\<rparr>))"

section \<open>Regular expressions\<close>

text \<open>
  Python's \<open>re.match\<close> is a backtracking matcher anchored at the start of the string:
  every repetition is greedy, takes the longest run first and gives characters back one
  at a time while the rest of the pattern fails. The two patterns of the script only
  repeat character classes, so a pattern is a list of items. \<open>Open\<close> and \<open>Close\<close>
  delimit a capturing group, \<open>OptGroup c\<close> is \<open>(c)?\<close>, whose capture is \<open>None\<close> when
  the character is not taken.
\<close>

datatype item =
    Lit nat
  | OptGroup nat
  | Plus "nat \<Rightarrow> bool"
  | Star "nat \<Rightarrow> bool"
  | Open
  | Close

fun re_run :: "item list \<Rightarrow> ustring \<Rightarrow> ustring \<Rightarrow> ustring option list
                \<Rightarrow> ustring option list option" where
  "re_run [] s st caps = Some caps"
| "re_run (Lit c # r) s st caps =
     (case s of [] \<Rightarrow> None
      | x # xs \<Rightarrow> if x = c then re_run r xs st caps else None)"
| "re_run (OptGroup c # r) s st caps =
     (case (case s of [] \<Rightarrow> None
            | x # xs \<Rightarrow> if x = c then re_run r xs st (caps @ [Some [c]]) else None) of
        Some g \<Rightarrow> Some g
      | None \<Rightarrow> re_run r s st (caps @ [None]))"
| "re_run (Plus P # r) s st caps =
     (case s of [] \<Rightarrow> None
      | x # xs \<Rightarrow> if P x then re_run (Star P # r) xs st caps else None)"
| "re_run (Star P # r) s st caps =
     (case (case s of [] \<Rightarrow> None
            | x # xs \<Rightarrow> if P x then re_run (Star P # r) xs st caps else None) of
        Some g \<Rightarrow> Some g
      | None \<Rightarrow> re_run r s st caps)"
| "re_run (Open # r) s st caps = re_run r s s caps"
| "re_run (Close # r) s st caps =
     re_run r s st (caps @ [Some (take (length st - length s) st)])"

definition re_match :: "item list \<Rightarrow> ustring \<Rightarrow> ustring option list option" where
  \<comment> \<open>\<open>re.match(pattern, s)\<close>, giving \<open>groups()\<close> of the match\<close>
  "re_match pattern s = re_run pattern s s []"

definition lits :: "string \<Rightarrow> item list" where
  "lits s = map Lit (ustr s)"

definition dot :: "nat \<Rightarrow> bool" where
  \<comment> \<open>\<open>.\<close> matches every character but the newline\<close>
  "dot c = (c \<noteq> 10)"

section \<open>The script's environment\<close>

text \<open>
  What the script takes from outside its own text: the directories of \<open>consts.paths\<close>,
  the interpreter's Unicode tables behind \<open>\d\<close>, \<open>\w\<close>, \<open>\s\<close> and \<open>str.strip\<close>, the
  contents of the archives, and the transcoder \<open>utils.opus_to_mp3.convert_opus_to_mp3\<close>.
  Every theorem below holds for all of them.
\<close>

type_synonym filesystem = "path list"

record env =
  ZIP_SOURCE_DIR :: path
  PROFE_DIR :: path
  DUMP_DIR :: path
  PROFE_SORTED_DIR :: path
  isdecimal :: "nat \<Rightarrow> bool"
  isalnum :: "nat \<Rightarrow> bool"
  isspace :: "nat \<Rightarrow> bool"
  extractall :: "path \<Rightarrow> path \<Rightarrow> filesystem \<Rightarrow> filesystem"
  convert_opus_to_mp3 :: "path \<Rightarrow> filesystem \<Rightarrow> exn + filesystem"

definition CHAT_FILE :: "env \<Rightarrow> path" where
  "CHAT_FILE e = joinpath (DUMP_DIR e) (ustr ''_chat.txt'')"

definition word_or_space :: "env \<Rightarrow> nat \<Rightarrow> bool" where
  \<comment> \<open>the class \<open>[\w\s]\<close>; \<open>\w\<close> is an alphanumeric character or the underscore\<close>
  "word_or_space e c = (isalnum e c \<or> c = 95 \<or> isspace e c)"

definition PATTERN :: "env \<Rightarrow> item list" where
  \<comment> \<open>\<open>(U+200E)?\[(\d+/\d+/\d+), (\d+:\d+:\d+)\] ([\w\s]+): (.*)\<close>\<close>
  "PATTERN e =
     [OptGroup LRM, Lit 91,
      Open, Plus (isdecimal e), Lit 47, Plus (isdecimal e), Lit 47, Plus (isdecimal e), Close,
      Lit 44, Lit 32,
      Open, Plus (isdecimal e), Lit 58, Plus (isdecimal e), Lit 58, Plus (isdecimal e), Close,
      Lit 93, Lit 32,
      Open, Plus (word_or_space e), Close,
      Lit 58, Lit 32,
      Open, Star dot, Close]"

definition FILENAME_PATTERN :: "item list" where
  \<comment> \<open>\<open>.*U+200E<attached: (.*)>\<close>\<close>
  "FILENAME_PATTERN =
     [Star dot, Lit LRM] @ lits ''<attached: '' @ [Open, Star dot, Close, Lit 62]"

section \<open>The grouping loop\<close>

record tema =
  title :: ustring
  files :: "path list"

definition append_to_last :: "tema list \<Rightarrow> path \<Rightarrow> exn + tema list" where
  \<comment> \<open>\<open>temas[-1]["files"].append(audio_path)\<close>: an empty list has no last element\<close>
  "append_to_last temas audio_path =
     (if temas = [] then Inl IndexError
      else Inr (butlast temas @ [(last temas)\<lparr>files := files (last temas) @ [audio_path]\<rparr>]))"

definition loop_body :: "env \<Rightarrow> tema list \<Rightarrow> ustring \<Rightarrow> exn + tema list" where
  \<comment> \<open>one iteration of the loop over the new lines: two independent \<open>if\<close>s under
      \<open>if match\<close>\<close>
  "loop_body e temas line =
     (case re_match (PATTERN e) line of
        Some [char, Some date, Some time, Some sender, Some message] \<Rightarrow>
          (let temas1 =
                 (if \<not> contains (ustr ''omitted'') message
                     \<and> \<not> contains (ustr ''deleted'') message \<and> char = None
                  then temas @ [\<lparr>title = replace_slash message, files = []\<rparr>]
                  else temas)
           in if char \<noteq> None \<and> \<not> contains (ustr ''omitted'') message
                 \<and> contains (ustr ''attached'') message
              then (case re_match FILENAME_PATTERN (strip (isspace e) message) of
                      Some [Some filename] \<Rightarrow>
                        append_to_last temas1 (joinpath (DUMP_DIR e) filename)
                    | _ \<Rightarrow> Inr temas1)
              else Inr temas1)
      | _ \<Rightarrow> Inr temas)"

fun loop :: "env \<Rightarrow> tema list \<Rightarrow> ustring list \<Rightarrow> exn + tema list" where
  \<comment> \<open>\<open>for index, line in enumerate(lines[LAST_LINE:])\<close>\<close>
  "loop e temas [] = Inr temas"
| "loop e temas (line # rest) =
     (case loop_body e temas line of
        Inl err \<Rightarrow> Inl err
      | Inr temas1 \<Rightarrow> loop e temas1 rest)"

section \<open>File-system primitives\<close>

text \<open>
  The file system is the list of the paths that exist, in the order a directory walk
  yields them. \<open>os.makedirs\<close> and \<open>shutil.move\<close> are modelled by their documented
  behaviour on that list: a move into a directory raises when the target name is taken
  (\<open>shutil.Error\<close>) and when the source is missing (\<open>FileNotFoundError\<close>). The file
  \<open>pickle.pkl\<close> is kept apart from it, in the \<open>pickle\<close> field of the world.
\<close>

definition makedirs :: "filesystem \<Rightarrow> path \<Rightarrow> exn + filesystem" where
  \<comment> \<open>\<open>os.makedirs(p)\<close>: the directory and its missing ancestors\<close>
  "makedirs fs p =
     (if p \<in> set fs then Inl FileExistsError
      else Inr (fs @ filter (\<lambda>d. d \<notin> set fs)
                        (map (\<lambda>k. p\<lparr>parts := take k (parts p)\<rparr>)
                             [1..<Suc (length (parts p))])))"

definition shutil_move :: "filesystem \<Rightarrow> path \<Rightarrow> path \<Rightarrow> exn + filesystem" where
  \<comment> \<open>\<open>shutil.move(src, dst)\<close> for an existing directory \<open>dst\<close>: the file keeps its name\<close>
  "shutil_move fs src dst =
     (let real_dst = joinpath dst (name src)
      in if real_dst \<in> set fs then Inl ShutilError
         else if src \<notin> set fs then Inl FileNotFoundError
         else Inr (removeAll src fs @ [real_dst]))"

definition shutil_move_as :: "filesystem \<Rightarrow> path \<Rightarrow> path \<Rightarrow> exn + filesystem" where
  \<comment> \<open>\<open>shutil.move(src, dst)\<close> for a \<open>dst\<close> that names the target file: a rename that
      replaces the target\<close>
  "shutil_move_as fs src dst =
     (if src \<notin> set fs then Inl FileNotFoundError
      else Inr (removeAll src (removeAll dst fs) @ [dst]))"

definition glob_children :: "filesystem \<Rightarrow> path \<Rightarrow> ustring \<Rightarrow> path list" where
  \<comment> \<open>\<open>dir.glob("*" + ending)\<close>: the entries of \<open>dir\<close> whose name ends so\<close>
  "glob_children fs dir ending =
     filter (\<lambda>p. root p = root dir \<and> parts p \<noteq> [] \<and> butlast (parts p) = parts dir
                 \<and> suffix ending (name p)) fs"

definition rglob :: "filesystem \<Rightarrow> path \<Rightarrow> ustring \<Rightarrow> path list" where
  \<comment> \<open>\<open>dir.rglob("*" + ending)\<close>: the same at any depth below \<open>dir\<close>\<close>
  "rglob fs dir ending =
     filter (\<lambda>p. root p = root dir \<and> strict_prefix (parts dir) (parts p)
                 \<and> suffix ending (name p)) fs"

section \<open>Placement\<close>

definition folder :: "env \<Rightarrow> tema \<Rightarrow> path" where
  \<comment> \<open>\<open>paths.PROFE_SORTED_DIR / tema["title"]\<close>\<close>
  "folder e tema = joinpath (PROFE_SORTED_DIR e) (title tema)"

definition sorted_file_path :: "env \<Rightarrow> tema \<Rightarrow> path \<Rightarrow> exn + path" where
  \<comment> \<open>the path whose existence decides whether \<open>file\<close> is still to be moved\<close>
  "sorted_file_path e tema file =
     (let p = joinpath (folder e tema) (name file)
      in if suffix_of p \<in> {ustr ''.ogg'', ustr ''.opus''}
         then (case with_suffix file (ustr ''.wav'') of
                 Inl err \<Rightarrow> Inl err
               | Inr converted \<Rightarrow> Inr (joinpath (folder e tema) (name converted)))
         else Inr p)"

definition place_file :: "env \<Rightarrow> tema \<Rightarrow> filesystem \<Rightarrow> path \<Rightarrow> exn + filesystem" where
  \<comment> \<open>the body of \<open>for file in tema["files"]\<close>\<close>
  "place_file e tema fs file =
     (case sorted_file_path e tema file of
        Inl err \<Rightarrow> Inl err
      | Inr p \<Rightarrow> if p \<notin> set fs then shutil_move fs file (folder e tema) else Inr fs)"

text \<open>
  An exception ends the script where it is raised; what was moved before stays moved.
  So the loops return the file system they reached, with the exception if there was one.
\<close>

fun place_files :: "env \<Rightarrow> tema \<Rightarrow> filesystem \<Rightarrow> path list \<Rightarrow> exn option \<times> filesystem" where
  "place_files e tema fs [] = (None, fs)"
| "place_files e tema fs (file # rest) =
     (case place_file e tema fs file of
        Inl err \<Rightarrow> (Some err, fs)
      | Inr fs1 \<Rightarrow> place_files e tema fs1 rest)"

definition ensure_folder :: "env \<Rightarrow> filesystem \<Rightarrow> tema \<Rightarrow> exn + filesystem" where
  \<comment> \<open>\<open>if not os.path.exists(folder) and tema["files"]: os.makedirs(folder)\<close>\<close>
  "ensure_folder e fs tema =
     (if folder e tema \<notin> set fs \<and> files tema \<noteq> []
      then makedirs fs (folder e tema) else Inr fs)"

definition place_tema :: "env \<Rightarrow> filesystem \<Rightarrow> tema \<Rightarrow> exn option \<times> filesystem" where
  \<comment> \<open>the body of \<open>for tema in temas\<close>\<close>
  "place_tema e fs tema =
     (case ensure_folder e fs tema of
        Inl err \<Rightarrow> (Some err, fs)
      | Inr fs1 \<Rightarrow> place_files e tema fs1 (files tema))"

fun place_temas :: "env \<Rightarrow> filesystem \<Rightarrow> tema list \<Rightarrow> exn option \<times> filesystem" where
  "place_temas e fs [] = (None, fs)"
| "place_temas e fs (tema # rest) =
     (case place_tema e fs tema of
        (Some err, fs1) \<Rightarrow> (Some err, fs1)
      | (None, fs1) \<Rightarrow> place_temas e fs1 rest)"

section \<open>Transcoding of the sorted directory\<close>

fun convert_all :: "env \<Rightarrow> filesystem \<Rightarrow> path list \<Rightarrow> exn option \<times> filesystem" where
  \<comment> \<open>\<open>for file in matching_files: convert_opus_to_mp3(file); file.unlink()\<close>\<close>
  "convert_all e fs [] = (None, fs)"
| "convert_all e fs (file # rest) =
     (case convert_opus_to_mp3 e file fs of
        Inl err \<Rightarrow> (Some err, fs)
      | Inr fs1 \<Rightarrow>
          if file \<notin> set fs1 then (Some FileNotFoundError, fs1)
          else convert_all e (removeAll file fs1) rest)"

definition matching_files :: "env \<Rightarrow> filesystem \<Rightarrow> path list" where
  "matching_files e fs =
     rglob fs (PROFE_SORTED_DIR e) (ustr ''.opus'') @ rglob fs (PROFE_SORTED_DIR e) (ustr ''.ogg'')"

section \<open>The run\<close>

record world =
  pickle :: "(nat \<times> tema list) option"
  disk :: filesystem

datatype outcome =
    Exit_no_files      \<comment> \<open>prints "No files found in ..." and \<open>sys.exit()\<close>\<close>
  | Exit_no_chat       \<comment> \<open>prints "File ... does not exist" and \<open>sys.exit()\<close>\<close>
  | Exit_no_new_lines  \<comment> \<open>prints "No new lines to parse" and \<open>sys.exit()\<close>\<close>
  | Raised exn         \<comment> \<open>an uncaught exception\<close>
  | Finished

definition load_pickle :: "world \<Rightarrow> nat \<times> tema list" where
  \<comment> \<open>\<open>LAST_LINE\<close> and \<open>temas\<close> as loaded, or 23 and the empty list without a pickle\<close>
  "load_pickle w = (case pickle w of Some data_loaded \<Rightarrow> data_loaded | None \<Rightarrow> (23, []))"

definition place_and_convert :: "env \<Rightarrow> tema list \<Rightarrow> world \<Rightarrow> outcome \<times> world" where
  \<comment> \<open>everything after the pickle is written\<close>
  "place_and_convert e temas w =
     (case place_temas e (disk w) temas of
        (Some err, fs1) \<Rightarrow> (Raised err, w\<lparr>disk := fs1\<rparr>)
      | (None, fs1) \<Rightarrow>
          (case convert_all e fs1 (matching_files e fs1) of
             (Some err, fs2) \<Rightarrow> (Raised err, w\<lparr>disk := fs2\<rparr>)
           | (None, fs2) \<Rightarrow> (Finished, w\<lparr>disk := fs2\<rparr>)))"

definition engine :: "env \<Rightarrow> ustring list \<Rightarrow> world \<Rightarrow> outcome \<times> world" where
  \<comment> \<open>the script from the loading of the pickle on, for the lines read from the chat\<close>
  "engine e lines w =
     (case load_pickle w of
        (LAST_LINE, temas) \<Rightarrow>
          if LAST_LINE = length lines then (Exit_no_new_lines, w)
          else (case loop e temas (drop LAST_LINE lines) of
                  Inl err \<Rightarrow> (Raised err, w)
                | Inr temas1 \<Rightarrow>
                    (let temas2 = filter (\<lambda>item. files item \<noteq> []) temas1
                     in place_and_convert e temas2
                          (w\<lparr>pickle := Some (length lines, temas2)\<rparr>))))"

fun move_zips :: "env \<Rightarrow> filesystem \<Rightarrow> path list \<Rightarrow> exn option \<times> filesystem" where
  \<comment> \<open>\<open>for file_path in paths.ZIP_SOURCE_DIR.glob("*profe.zip")\<close>\<close>
  "move_zips e fs [] = (None, fs)"
| "move_zips e fs (file_path # rest) =
     (case (if PROFE_DIR e \<notin> set fs then makedirs fs (PROFE_DIR e) else Inr fs) of
        Inl err \<Rightarrow> (Some err, fs)
      | Inr fs1 \<Rightarrow>
          (case shutil_move_as fs1 file_path (joinpath (PROFE_DIR e) (name file_path)) of
             Inl err \<Rightarrow> (Some err, fs1)
           | Inr fs2 \<Rightarrow> move_zips e fs2 rest))"

definition source_zips :: "env \<Rightarrow> filesystem \<Rightarrow> path list" where
  \<comment> \<open>\<open>paths.ZIP_SOURCE_DIR.glob("*profe.zip")\<close>\<close>
  "source_zips e fs = glob_children fs (ZIP_SOURCE_DIR e) (ustr ''profe.zip'')"

definition extract_zips :: "env \<Rightarrow> filesystem \<Rightarrow> filesystem" where
  \<comment> \<open>\<open>for zip_file in paths.PROFE_DIR.glob("*profe.zip"): extractall(paths.DUMP_DIR)\<close>\<close>
  "extract_zips e fs =
     foldl (\<lambda>fs1 zip_file. extractall e zip_file (DUMP_DIR e) fs1) fs
           (glob_children fs (PROFE_DIR e) (ustr ''profe.zip''))"

definition script :: "env \<Rightarrow> ustring list \<Rightarrow> world \<Rightarrow> outcome \<times> world" where
  \<comment> \<open>the whole script; \<open>lines\<close> is what \<open>file.readlines()\<close> gives when the chat file
      is there\<close>
  "script e lines w =
     (if source_zips e (disk w) = [] then (Exit_no_files, w)
      else (case move_zips e (disk w) (source_zips e (disk w)) of
              (Some err, fs1) \<Rightarrow> (Raised err, w\<lparr>disk := fs1\<rparr>)
            | (None, fs1) \<Rightarrow>
                if CHAT_FILE e \<notin> set (extract_zips e fs1)
                then (Exit_no_chat, w\<lparr>disk := extract_zips e fs1\<rparr>)
                else engine e lines (w\<lparr>disk := extract_zips e fs1\<rparr>)))"

section \<open>The line matcher of the specification\<close>

text \<open>
  The specification describes the two \<open>if\<close>s of the loop as one function
  \<open>classify(line) -> MessageEvent\<close> with three outcomes. This definition follows its
  words (section 4.1); the theorems compare it with \<open>loop_body\<close>.
\<close>

datatype event =
    Content ustring ustring ustring ustring     \<comment> \<open>sender, date, time, message\<close>
  | Attachment ustring ustring ustring ustring  \<comment> \<open>sender, date, time, attached file name\<close>
  | Non_match

definition classify :: "env \<Rightarrow> ustring \<Rightarrow> event" where
  "classify e line =
     (case re_match (PATTERN e) line of
        Some [marker, Some date, Some time, Some sender, Some body] \<Rightarrow>
          (if marker = None
           then (if \<not> contains (ustr ''omitted'') body \<and> \<not> contains (ustr ''deleted'') body
                 then Content sender date time body else Non_match)
           else (if contains (ustr ''attached'') body \<and> \<not> contains (ustr ''omitted'') body
                 then (case re_match FILENAME_PATTERN (strip (isspace e) body) of
                         Some [Some filename] \<Rightarrow> Attachment sender date time filename
                       | _ \<Rightarrow> Non_match)
                 else Non_match))
      | _ \<Rightarrow> Non_match)"

fun is_content :: "event \<Rightarrow> bool" where
  "is_content (Content sender date time body) = True"
| "is_content _ = False"

fun attached :: "env \<Rightarrow> ustring list \<Rightarrow> path list" where
  \<comment> \<open>the file references of the attachment markers among the lines, in order\<close>
  "attached e [] = []"
| "attached e (line # rest) =
     (case classify e line of
        Attachment sender date time filename \<Rightarrow> joinpath (DUMP_DIR e) filename # attached e rest
      | _ \<Rightarrow> attached e rest)"

section \<open>A concrete environment\<close>

definition spec_convert :: "path \<Rightarrow> filesystem \<Rightarrow> exn + filesystem" where
  \<comment> \<open>Modelled from the spec: \<open>utils/opus_to_mp3.py\<close> is not among the sources. Section 6
      says of the transcoder that it "writes a sibling file with the converted extension;
      does not delete the source"; the extension is the one the placement loop looks
      for, \<open>.wav\<close>.\<close>
  "spec_convert file fs =
     (case with_suffix file (ustr ''.wav'') of
        Inl err \<Rightarrow> Inl err
      | Inr out \<Rightarrow> Inr (if out \<in> set fs then fs else fs @ [out]))"

definition ascii_env :: env where
  \<comment> \<open>the directories of the script's docstring, the Unicode tables cut down to ASCII
      (where they are the interpreter's), archives that bring nothing new\<close>
  "ascii_env =
     \<lparr>ZIP_SOURCE_DIR = parse_path (ustr ''zips''),
      PROFE_DIR = parse_path (ustr ''profe''),
      DUMP_DIR = parse_path (ustr ''profe/.dump''),
      PROFE_SORTED_DIR = parse_path (ustr ''profe/sorted''),
      isdecimal = (\<lambda>c. 48 \<le> c \<and> c \<le> 57),
      isalnum = (\<lambda>c. (48 \<le> c \<and> c \<le> 57) \<or> (65 \<le> c \<and> c \<le> 90) \<or> (97 \<le> c \<and> c \<le> 122)),
      isspace = (\<lambda>c. (9 \<le> c \<and> c \<le> 13) \<or> (28 \<le> c \<and> c \<le> 32)),
      extractall = (\<lambda>zip_file dir fs. fs),
      convert_opus_to_mp3 = spec_convert\<rparr>"

definition content_line :: "string \<Rightarrow> ustring" where
  \<comment> \<open>a chat line by sender A with the given message\<close>
  "content_line msg = ustr ''[1/1/24, 10:00:00] A: '' @ ustr msg @ [10]"

definition attachment_line :: "string \<Rightarrow> ustring" where
  \<comment> \<open>the system line of an attached file\<close>
  "attachment_line filename =
     LRM # ustr ''[1/1/24, 10:00:05] A: '' @ [LRM] @ ustr ''<attached: '' @ ustr filename
       @ ustr ''>'' @ [10]"

definition header :: "ustring list" where
  \<comment> \<open>23 lines that match nothing, as the lines before the first one the script reads\<close>
  "header = replicate 23 [10]"

definition broken_marker_line :: ustring where
  \<comment> \<open>a system line that speaks of an attachment without the \<open><attached: NAME>\<close> form\<close>
  "broken_marker_line = LRM # ustr ''[1/1/24, 10:00:05] A: attached'' @ [10]"

definition example_log :: "ustring list" where
  "example_log =
     header @ [content_line ''A'', attachment_line ''a'', content_line ''B'',
               attachment_line ''b'']"

definition n_opus :: path where
  "n_opus = joinpath (DUMP_DIR ascii_env) (ustr ''n.opus'')"

definition m_txt :: path where
  "m_txt = joinpath (DUMP_DIR ascii_env) (ustr ''m.txt'')"

definition tema_A :: tema where
  "tema_A = \<lparr>title = ustr ''A'', files = [n_opus, m_txt]\<rparr>"

definition sorted_A :: "string \<Rightarrow> path" where
  \<comment> \<open>a file of the folder of topic A\<close>
  "sorted_A n = \<lparr>root = [], parts = [ustr ''profe'', ustr ''sorted'', ustr ''A'', ustr n]\<rparr>"

definition x_zip :: path where
  \<comment> \<open>an archive waiting in the source directory\<close>
  "x_zip = parse_path (ustr ''zips/x_profe.zip'')"

definition profe_x_zip :: path where
  \<comment> \<open>the same archive once moved to the working directory\<close>
  "profe_x_zip = \<lparr>root = [], parts = [ustr ''profe'', ustr ''x_profe.zip'']\<rparr>"





section \<open>Evaluation on concrete lines\<close>

lemmas eval_defs =
  ascii_env_def ustr_def LRM_def re_match_def PATTERN_def FILENAME_PATTERN_def lits_def
  dot_def word_or_space_def replace_slash_def strip_def joinpath_def parse_path_def
  splitroot_def content_line_def attachment_line_def

lemma classify_content_A:
  "classify ascii_env (content_line ''A'') =
     Content (ustr ''A'') (ustr ''1/1/24'') (ustr ''10:00:00'') (ustr ''A'')"
  by (simp add: classify_def eval_defs)

lemma classify_content_B:
  "classify ascii_env (content_line ''B'') =
     Content (ustr ''A'') (ustr ''1/1/24'') (ustr ''10:00:00'') (ustr ''B'')"
  by (simp add: classify_def eval_defs)

lemma classify_attachment_a:
  "classify ascii_env (attachment_line ''a'') =
     Attachment (ustr ''A'') (ustr ''1/1/24'') (ustr ''10:00:05'') (ustr ''a'')"
  by (simp add: classify_def eval_defs)

lemma classify_attachment_b:
  "classify ascii_env (attachment_line ''b'') =
     Attachment (ustr ''A'') (ustr ''1/1/24'') (ustr ''10:00:05'') (ustr ''b'')"
  by (simp add: classify_def eval_defs)

lemma classify_newline: "classify e [10] = Non_match"
  by (simp add: classify_def re_match_def PATTERN_def LRM_def)

lemma dump_a: "joinpath (DUMP_DIR ascii_env) (ustr ''a'') =
    \<lparr>root = [], parts = [ustr ''profe'', ustr ''.dump'', ustr ''a'']\<rparr>"
  by (simp add: eval_defs)

lemma dump_b: "joinpath (DUMP_DIR ascii_env) (ustr ''b'') =
    \<lparr>root = [], parts = [ustr ''profe'', ustr ''.dump'', ustr ''b'']\<rparr>"
  by (simp add: eval_defs)

lemma title_A: "replace_slash (ustr ''A'') = ustr ''A''"
  by (simp add: replace_slash_def ustr_def)

lemma title_B: "replace_slash (ustr ''B'') = ustr ''B''"
  by (simp add: replace_slash_def ustr_def)

lemmas line_evals =
  classify_content_A classify_content_B classify_attachment_a classify_attachment_b
  classify_newline dump_a dump_b title_A title_B

section \<open>The loop body is the line matcher followed by one action\<close>

lemma loop_body_classify:
  "loop_body e temas line =
     (case classify e line of
        Content sender date time body \<Rightarrow>
          Inr (temas @ [\<lparr>title = replace_slash body, files = []\<rparr>])
      | Attachment sender date time filename \<Rightarrow>
          append_to_last temas (joinpath (DUMP_DIR e) filename)
      | Non_match \<Rightarrow> Inr temas)"
  unfolding loop_body_def classify_def
  by (auto split: option.splits list.splits)

lemma loop_append:
  "loop e T (A @ B) = (case loop e T A of Inl err \<Rightarrow> Inl err | Inr T1 \<Rightarrow> loop e T1 B)"
  by (induction A arbitrary: T) (auto split: sum.splits)

lemma append_to_last_snoc:
  "append_to_last (P @ q # R) p =
     Inr (P @ (if R = [] then [q\<lparr>files := files q @ [p]\<rparr>]
               else q # butlast R @ [(last R)\<lparr>files := files (last R) @ [p]\<rparr>]))"
  by (simp add: append_to_last_def butlast_append)

text \<open>
  Once the list has an element, no line raises, and what stands before the last
  element is never touched again: a topic only ever gains files while it is the last.
\<close>

lemma loop_body_keeps_front:
  "\<exists>q' R'. title q' = title q \<and> prefix (files q) (files q')
      \<and> (\<forall>P. loop_body e (P @ q # R) line = Inr (P @ q' # R'))"
proof (cases "classify e line")
  case (Content s d t b)
  then have "\<forall>P. loop_body e (P @ q # R) line =
      Inr (P @ q # (R @ [\<lparr>title = replace_slash b, files = []\<rparr>]))"
    by (simp add: loop_body_classify)
  then show ?thesis by (intro exI[of _ q] exI) auto
next
  case (Attachment s d t f)
  show ?thesis
  proof (cases "R = []")
    case True
    with Attachment have "\<forall>P. loop_body e (P @ q # R) line =
        Inr (P @ q\<lparr>files := files q @ [joinpath (DUMP_DIR e) f]\<rparr> # [])"
      by (simp add: loop_body_classify append_to_last_snoc)
    then show ?thesis
      by (intro exI[of _ "q\<lparr>files := files q @ [joinpath (DUMP_DIR e) f]\<rparr>"] exI) auto
  next
    case False
    with Attachment have "\<forall>P. loop_body e (P @ q # R) line =
        Inr (P @ q # (butlast R @
               [(last R)\<lparr>files := files (last R) @ [joinpath (DUMP_DIR e) f]\<rparr>]))"
      by (simp add: loop_body_classify append_to_last_snoc)
    then show ?thesis by (intro exI[of _ q] exI) auto
  qed
next
  case Non_match
  then have "\<forall>P. loop_body e (P @ q # R) line = Inr (P @ q # R)"
    by (simp add: loop_body_classify)
  then show ?thesis by (intro exI[of _ q] exI) auto
qed

lemma loop_keeps_front:
  "\<exists>q' R'. title q' = title q \<and> prefix (files q) (files q')
      \<and> (\<forall>P. loop e (P @ q # R) ls = Inr (P @ q' # R'))"
proof (induction ls arbitrary: q R)
  case Nil
  show ?case by (intro exI[of _ q] exI[of _ R]) simp
next
  case (Cons l ls)
  obtain q1 R1 where s: "title q1 = title q" "prefix (files q) (files q1)"
      "\<forall>P. loop_body e (P @ q # R) l = Inr (P @ q1 # R1)"
    using loop_body_keeps_front by blast
  obtain q2 R2 where t: "title q2 = title q1" "prefix (files q1) (files q2)"
      "\<forall>P. loop e (P @ q1 # R1) ls = Inr (P @ q2 # R2)"
    using Cons.IH by blast
  from s t have "\<forall>P. loop e (P @ q # R) (l # ls) = Inr (P @ q2 # R2)" by simp
  moreover from s t have "title q2 = title q" "prefix (files q) (files q2)" by auto
  ultimately show ?case by blast
qed

lemma loop_no_content:
  assumes "\<forall>l\<in>set B. \<not> is_content (classify e l)" and "T \<noteq> []"
  shows "loop e T B = Inr (butlast T @ [(last T)\<lparr>files := files (last T) @ attached e B\<rparr>])"
  using assms
proof (induction B arbitrary: T)
  case Nil
  then show ?case by simp
next
  case (Cons l B)
  show ?case
  proof (cases "classify e l")
    case (Content s d t b)
    with Cons.prems show ?thesis by simp
  next
    case (Attachment s d t f)
    let ?T1 = "butlast T @ [(last T)\<lparr>files := files (last T) @ [joinpath (DUMP_DIR e) f]\<rparr>]"
    from Attachment Cons.prems have "loop_body e T l = Inr ?T1"
      by (simp add: loop_body_classify append_to_last_def)
    moreover have "loop e ?T1 B =
        Inr (butlast ?T1 @ [(last ?T1)\<lparr>files := files (last ?T1) @ attached e B\<rparr>])"
      using Cons.prems by (intro Cons.IH) auto
    ultimately show ?thesis using Attachment by simp
  next
    case Non_match
    with Cons show ?thesis by (simp add: loop_body_classify)
  qed
qed

section \<open>What a run leaves in the pickle\<close>

lemma pickle_place_and_convert: "pickle (snd (place_and_convert e T w)) = pickle w"
  by (simp add: place_and_convert_def split: prod.splits option.splits)

lemma pickle_engine:
  "pickle (snd (engine e lines w)) =
     (if fst (load_pickle w) = length lines then pickle w
      else (case loop e (snd (load_pickle w)) (drop (fst (load_pickle w)) lines) of
              Inl err \<Rightarrow> pickle w
            | Inr T1 \<Rightarrow> Some (length lines, filter (\<lambda>item. files item \<noteq> []) T1)))"
  by (simp add: engine_def Let_def pickle_place_and_convert split: prod.splits sum.splits)

section \<open>Grouping\<close>

text \<open>
  C1. The claim: an attachment marker goes to the topic opened by the nearest preceding
  content message of the run's window, and is dropped when the window has opened none
  yet, never reaching a topic loaded from the pickle. The loop appends to \<open>temas[-1]\<close>,
  and \<open>temas\<close> starts as the loaded list. So the first half holds: after a content
  line \<open>c\<close>, the attachments of the lines \<open>B\<close> up to the next content line are the files
  of the topic of \<open>c\<close>. The second half does not: with no content line in the window
  \<open>B\<close> yet, the attachments are appended to the last loaded topic.
\<close>

theorem attachments_join_last_topic:
  assumes "\<forall>l\<in>set B. \<not> is_content (classify e l)"
  shows "(classify e c = Content sender date time body \<longrightarrow> loop e T A = Inr T1 \<longrightarrow>
            loop e T (A @ c # B) =
              Inr (T1 @ [\<lparr>title = replace_slash body, files = attached e B\<rparr>]))
       \<and> (T \<noteq> [] \<longrightarrow>
            loop e T B = Inr (butlast T @ [(last T)\<lparr>files := files (last T) @ attached e B\<rparr>]))"
proof (intro conjI impI)
  assume c: "classify e c = Content sender date time body" and a: "loop e T A = Inr T1"
  let ?new = "\<lparr>title = replace_slash body, files = []\<rparr>"
  have "loop e T (A @ c # B) = loop e (T1 @ [?new]) B"
    using c a by (simp add: loop_append loop_body_classify)
  also have "\<dots> = Inr (butlast (T1 @ [?new]) @
      [(last (T1 @ [?new]))\<lparr>files := files (last (T1 @ [?new])) @ attached e B\<rparr>])"
    using assms by (intro loop_no_content) auto
  finally show "loop e T (A @ c # B) =
      Inr (T1 @ [\<lparr>title = replace_slash body, files = attached e B\<rparr>])"
    by simp
next
  assume "T \<noteq> []"
  with assms show "loop e T B =
      Inr (butlast T @ [(last T)\<lparr>files := files (last T) @ attached e B\<rparr>])"
    by (rule loop_no_content)
qed

theorem attachments_join_last_topic_witness:
  "loop ascii_env [] ([content_line ''A''] @ content_line ''B'' # [attachment_line ''b'']) =
     Inr [\<lparr>title = ustr ''A'', files = []\<rparr>,
          \<lparr>title = ustr ''B'', files = [joinpath (DUMP_DIR ascii_env) (ustr ''b'')]\<rparr>]
   \<and> loop ascii_env [\<lparr>title = ustr ''A'', files = []\<rparr>] [attachment_line ''b''] =
     Inr [\<lparr>title = ustr ''A'', files = [joinpath (DUMP_DIR ascii_env) (ustr ''b'')]\<rparr>]"
proof -
  have h: "\<forall>l\<in>set [attachment_line ''b'']. \<not> is_content (classify ascii_env l)"
    by (simp add: line_evals)
  have a: "loop ascii_env [] [content_line ''A''] = Inr [\<lparr>title = ustr ''A'', files = []\<rparr>]"
    by (simp add: loop_body_classify line_evals)
  show ?thesis
    using attachments_join_last_topic [OF h, where c = "content_line ''B''"
        and sender = "ustr ''A''" and date = "ustr ''1/1/24''" and time = "ustr ''10:00:00''"
        and body = "ustr ''B''" and T = "[]" and A = "[content_line ''A'']"
        and ?T1.0 = "[\<lparr>title = ustr ''A'', files = []\<rparr>]"]
      attachments_join_last_topic [OF h, where T = "[\<lparr>title = ustr ''A'', files = []\<rparr>]"]
      a
    by (simp add: line_evals)
qed

theorem attachment_reaches_loaded_topic:
  "pickle (snd (engine ascii_env
       (header @ [content_line ''A'', attachment_line ''a'', content_line ''B'',
                  attachment_line ''b''])
       \<lparr>pickle = Some (26, [\<lparr>title = ustr ''A'',
                               files = [joinpath (DUMP_DIR ascii_env) (ustr ''a'')]\<rparr>]),
        disk = []\<rparr>))
   = Some (27, [\<lparr>title = ustr ''A'',
                 files = [joinpath (DUMP_DIR ascii_env) (ustr ''a''),
                          joinpath (DUMP_DIR ascii_env) (ustr ''b'')]\<rparr>])"
  by (simp add: pickle_engine load_pickle_def header_def loop_body_classify line_evals
      append_to_last_def)

lemma loop_non_match: "\<forall>l\<in>set B. classify e l = Non_match \<Longrightarrow> loop e T B = Inr T"
  by (induction B) (auto simp: loop_body_classify)

section \<open>Line classification\<close>

text \<open>
  C8. Line classification is total and deterministic: every line gives exactly one of
  Content message, Attachment marker and Non-match, and classifying never raises; a
  marker line whose \<open><attached: NAME>\<close> sub-pattern fails is a Non-match, its
  attachment dropped. In the code the two \<open>if\<close>s of the loop body are that one
  three-way choice: the body does what \<open>classify\<close> says and nothing else, its only
  exception is the \<open>temas[-1]\<close> of the grouping step, and a line that matches
  \<open>PATTERN\<close> with the marker but not \<open>FILENAME_PATTERN\<close> leaves the list as it was.
\<close>

theorem line_matcher_total:
  "loop_body e temas line =
     (case classify e line of
        Content sender date time body \<Rightarrow>
          Inr (temas @ [\<lparr>title = replace_slash body, files = []\<rparr>])
      | Attachment sender date time filename \<Rightarrow>
          append_to_last temas (joinpath (DUMP_DIR e) filename)
      | Non_match \<Rightarrow> Inr temas)
   \<and> (loop_body e temas line = Inl err \<longrightarrow>
        err = IndexError \<and> temas = []
        \<and> (\<exists>sender date time filename. classify e line = Attachment sender date time filename))
   \<and> (re_match (PATTERN e) line = Some [Some marker, Some date, Some time, Some sender, Some body]
        \<longrightarrow> re_match FILENAME_PATTERN (strip (isspace e) body) = None
        \<longrightarrow> classify e line = Non_match \<and> loop_body e temas line = Inr temas)"
proof (intro conjI impI)
  show "loop_body e temas line =
     (case classify e line of
        Content sender date time body \<Rightarrow>
          Inr (temas @ [\<lparr>title = replace_slash body, files = []\<rparr>])
      | Attachment sender date time filename \<Rightarrow>
          append_to_last temas (joinpath (DUMP_DIR e) filename)
      | Non_match \<Rightarrow> Inr temas)"
    by (rule loop_body_classify)
next
  assume r: "loop_body e temas line = Inl err"
  then show "err = IndexError"
    by (auto simp: loop_body_classify append_to_last_def split: event.splits if_splits)
  from r show "temas = []"
    by (auto simp: loop_body_classify append_to_last_def split: event.splits if_splits)
  from r show "\<exists>sender date time filename. classify e line = Attachment sender date time filename"
    by (auto simp: loop_body_classify append_to_last_def split: event.splits if_splits)
next
  assume m: "re_match (PATTERN e) line = Some [Some marker, Some date, Some time, Some sender, Some body]"
    and f: "re_match FILENAME_PATTERN (strip (isspace e) body) = None"
  from m f show c: "classify e line = Non_match"
    by (simp add: classify_def)
  then show "loop_body e temas line = Inr temas"
    by (simp add: loop_body_classify)
qed

theorem line_matcher_total_witness:
  "classify ascii_env broken_marker_line = Non_match
   \<and> loop_body ascii_env [] broken_marker_line = Inr []"
proof -
  have m: "re_match (PATTERN ascii_env) broken_marker_line =
      Some [Some [LRM], Some (ustr ''1/1/24''), Some (ustr ''10:00:05''), Some (ustr ''A''),
            Some (ustr ''attached'')]"
    by (simp add: broken_marker_line_def eval_defs)
  have f: "re_match FILENAME_PATTERN (strip (isspace ascii_env) (ustr ''attached'')) = None"
    by (simp add: eval_defs)
  from line_matcher_total [of ascii_env "[]" broken_marker_line]  m f
  show ?thesis by blast
qed

section \<open>Topics without attachments\<close>

text \<open>
  C7. The topic list that is persisted and handed to placement has no topic with an
  empty file list: a topic whose message was followed by no attachment before the next
  content message or the end of the run is discarded, also when the last line of the run
  opened it. First conjunct: a run either leaves the pickle as it was, or writes a list
  without empty topics and places exactly that list. Second conjunct: when a content
  line \<open>c\<close> is followed by lines \<open>B\<close> that match nothing, and then by the end of the
  window or by another content line, the output is the output of the window
  without \<open>c\<close>.
\<close>

theorem no_empty_topic_in_output:
  "(pickle (snd (engine e lines w)) = pickle w
      \<or> (\<exists>T'. pickle (snd (engine e lines w)) = Some (length lines, T')
               \<and> (\<forall>t\<in>set T'. files t \<noteq> [])
               \<and> engine e lines w =
                   place_and_convert e T' (w\<lparr>pickle := Some (length lines, T')\<rparr>)))
   \<and> (classify e c = Content sender date time body \<longrightarrow>
       (\<forall>l\<in>set B. classify e l = Non_match) \<longrightarrow>
       (C = [] \<or> is_content (classify e (hd C))) \<longrightarrow>
       loop e T A = Inr T1 \<longrightarrow>
       (\<exists>R R'. loop e T (A @ c # B @ C) = Inr R \<and> loop e T (A @ B @ C) = Inr R'
              \<and> filter (\<lambda>item. files item \<noteq> []) R = filter (\<lambda>item. files item \<noteq> []) R'))"
proof (intro conjI impI)
  show "pickle (snd (engine e lines w)) = pickle w
      \<or> (\<exists>T'. pickle (snd (engine e lines w)) = Some (length lines, T')
               \<and> (\<forall>t\<in>set T'. files t \<noteq> [])
               \<and> engine e lines w =
                   place_and_convert e T' (w\<lparr>pickle := Some (length lines, T')\<rparr>))"
    by (auto simp: engine_def Let_def pickle_place_and_convert split: prod.splits sum.splits)
next
  assume c: "classify e c = Content sender date time body"
    and b: "\<forall>l\<in>set B. classify e l = Non_match"
    and cc: "C = [] \<or> is_content (classify e (hd C))"
    and a: "loop e T A = Inr T1"
  let ?new = "\<lparr>title = replace_slash body, files = []\<rparr>"
  have with_c: "loop e T (A @ c # B @ C) = loop e (T1 @ [?new]) C"
    using a b c by (simp add: loop_append loop_body_classify loop_non_match)
  have without_c: "loop e T (A @ B @ C) = loop e T1 C"
    using a b by (simp add: loop_append loop_non_match)
  show "\<exists>R R'. loop e T (A @ c # B @ C) = Inr R \<and> loop e T (A @ B @ C) = Inr R'
              \<and> filter (\<lambda>item. files item \<noteq> []) R = filter (\<lambda>item. files item \<noteq> []) R'"
  proof (cases C)
    case Nil
    with with_c without_c show ?thesis by simp
  next
    case (Cons c2 C')
    with cc obtain s2 d2 t2 b2 where c2: "classify e c2 = Content s2 d2 t2 b2"
      by (cases "classify e c2") auto
    let ?new2 = "\<lparr>title = replace_slash b2, files = []\<rparr>"
    obtain q' R' where k: "\<forall>P. loop e (P @ ?new2 # []) C' = Inr (P @ q' # R')"
      using loop_keeps_front [of ?new2 e "[]" C'] by blast
    from k have "loop e ((T1 @ [?new]) @ ?new2 # []) C' = Inr ((T1 @ [?new]) @ q' # R')"
      by blast
    with with_c Cons c2 have 1: "loop e T (A @ c # B @ C) = Inr (T1 @ ?new # q' # R')"
      by (simp add: loop_body_classify)
    from k have "loop e (T1 @ ?new2 # []) C' = Inr (T1 @ q' # R')"
      by blast
    with without_c Cons c2 have 2: "loop e T (A @ B @ C) = Inr (T1 @ q' # R')"
      by (simp add: loop_body_classify)
    from 1 2 show ?thesis by simp
  qed
qed

theorem no_empty_topic_in_output_witness:
  "pickle (snd (engine ascii_env (header @ [content_line ''A'', attachment_line ''a'', content_line ''B''])
       \<lparr>pickle = None, disk = []\<rparr>))
     = Some (26, [\<lparr>title = ustr ''A'', files = [joinpath (DUMP_DIR ascii_env) (ustr ''a'')]\<rparr>])
   \<and> (\<exists>R R'. loop ascii_env [] ([content_line ''A'', attachment_line ''a''] @ content_line ''B'' # [[10]] @ []) = Inr R
        \<and> loop ascii_env [] ([content_line ''A'', attachment_line ''a''] @ [[10]] @ []) = Inr R'
        \<and> filter (\<lambda>item. files item \<noteq> []) R = filter (\<lambda>item. files item \<noteq> []) R')"
proof -
  have a: "loop ascii_env [] [content_line ''A'', attachment_line ''a''] =
      Inr [\<lparr>title = ustr ''A'', files = [joinpath (DUMP_DIR ascii_env) (ustr ''a'')]\<rparr>]"
    by (simp add: loop_body_classify line_evals append_to_last_def)
  have p: "pickle (snd (engine ascii_env (header @ [content_line ''A'', attachment_line ''a'', content_line ''B''])
       \<lparr>pickle = None, disk = []\<rparr>))
     = Some (26, [\<lparr>title = ustr ''A'', files = [joinpath (DUMP_DIR ascii_env) (ustr ''a'')]\<rparr>])"
    by (simp add: pickle_engine load_pickle_def header_def loop_body_classify line_evals
        append_to_last_def)
  from no_empty_topic_in_output [where e = ascii_env
      and lines = "header @ [content_line ''A'', attachment_line ''a'', content_line ''B'']"
      and w = "\<lparr>pickle = None, disk = []\<rparr>" and c = "content_line ''B''"
      and sender = "ustr ''A''" and date = "ustr ''1/1/24''" and time = "ustr ''10:00:00''"
      and body = "ustr ''B''" and B = "[[10]]" and C = "[]" and T = "[]"
      and A = "[content_line ''A'', attachment_line ''a'']"
      and ?T1.0 = "[\<lparr>title = ustr ''A'',
                      files = [joinpath (DUMP_DIR ascii_env) (ustr ''a'')]\<rparr>]"] a p
  show ?thesis by (simp add: line_evals)
qed


lemma engine_no_new_lines:
  "fst (load_pickle w) = length lines \<Longrightarrow> engine e lines w = (Exit_no_new_lines, w)"
  by (auto simp: engine_def split: prod.splits)

lemma engine_unfold:
  "engine e lines w =
     (if fst (load_pickle w) = length lines then (Exit_no_new_lines, w)
      else (case loop e (snd (load_pickle w)) (drop (fst (load_pickle w)) lines) of
              Inl err \<Rightarrow> (Raised err, w)
            | Inr T1 \<Rightarrow>
                place_and_convert e (filter (\<lambda>item. files item \<noteq> []) T1)
                  (w\<lparr>pickle := Some (length lines, filter (\<lambda>item. files item \<noteq> []) T1)\<rparr>)))"
  by (auto simp: engine_def Let_def split: prod.splits sum.splits)

lemma load_pickle_Some: "pickle w = Some (n, T) \<Longrightarrow> load_pickle w = (n, T)"
  by (simp add: load_pickle_def)

lemma load_pickle_None: "pickle w = None \<Longrightarrow> load_pickle w = (23, [])"
  by (simp add: load_pickle_def)

section \<open>Resuming\<close>

text \<open>
  C2. The claim: for every split of a log at a line boundary, a run on the prefix followed
  by a run on the full log ends with the same topic groups as one run on the full log.
  The filter of line 122 runs before the pickle is written, so a topic that has no file
  yet at the split is gone when its attachments arrive: they join the topic before it.
  And a prefix shorter than the 23 lines the first run skips moves the start of the
  second run's window. The equivalence holds for a split at line 23 or later that does
  not leave the last topic opened so far without a file: the runs then persist the same
  topic list (an absent pickle counting as the empty list).
\<close>

theorem resume_after_split:
  assumes "pickle w = None" and "23 \<le> k" and "k \<le> length L"
    and "loop e [] (drop 23 (take k L)) = Inr T"
    and "T = [] \<or> files (last T) \<noteq> []"
  shows "snd (load_pickle (snd (engine e L (snd (engine e (take k L) w)))))
       = snd (load_pickle (snd (engine e L w)))"
proof (cases "k = 23")
  case True
  with assms have "engine e (take k L) w = (Exit_no_new_lines, w)"
    by (intro engine_no_new_lines) (simp add: load_pickle_None)
  then show ?thesis by simp
next
  case False
  define F where "F = filter (\<lambda>item. files item \<noteq> []) T"
  define w1 where "w1 = snd (engine e (take k L) w)"
  have len: "length (take k L) = k" using assms by simp
  have p1: "pickle w1 = Some (k, F)"
    using assms False unfolding w1_def F_def
    by (simp add: pickle_engine load_pickle_None)
  have split: "drop 23 L = drop 23 (take k L) @ drop k L"
  proof -
    have "drop 23 L = drop 23 (take k L @ drop k L)" by simp
    also have "\<dots> = drop 23 (take k L) @ drop k L"
      using assms by (simp only: drop_append len) simp
    finally show ?thesis .
  qed
  have single: "loop e [] (drop 23 L) = loop e T (drop k L)"
    using assms by (simp add: split loop_append)
  have n23: "23 \<noteq> length L" using assms False by simp
  have rhs: "pickle (snd (engine e L w)) =
      (case loop e T (drop k L) of Inl err \<Rightarrow> None
       | Inr R \<Rightarrow> Some (length L, filter (\<lambda>item. files item \<noteq> []) R))"
    using assms n23 by (simp add: pickle_engine load_pickle_None single split: sum.splits)
  have lhs: "pickle (snd (engine e L w1)) =
      (if k = length L then Some (k, F)
       else (case loop e F (drop k L) of Inl err \<Rightarrow> Some (k, F)
             | Inr R \<Rightarrow> Some (length L, filter (\<lambda>item. files item \<noteq> []) R)))"
    using p1 by (simp add: pickle_engine load_pickle_Some split: sum.splits)
  show ?thesis
  proof (cases "k = length L")
    case True
    with lhs rhs show ?thesis
      unfolding w1_def [symmetric] by (simp add: load_pickle_def F_def)
  next
    case kl: False
    show ?thesis
    proof (cases "T = []")
      case True
      with lhs rhs kl show ?thesis
        unfolding w1_def [symmetric] by (simp add: load_pickle_def F_def split: sum.splits)
    next
      case tn: False
      with assms have fl: "files (last T) \<noteq> []" by simp
      obtain q' R' where k: "\<forall>P. loop e (P @ last T # []) (drop k L) = Inr (P @ q' # R')"
        using loop_keeps_front [of "last T" e "[]" "drop k L"] by blast
      have T: "T = butlast T @ [last T]" using tn by simp
      have F: "F = filter (\<lambda>item. files item \<noteq> []) (butlast T) @ [last T]"
        unfolding F_def by (subst T) (simp add: fl)
      have "loop e (butlast T @ [last T]) (drop k L) = Inr (butlast T @ q' # R')"
        using k by blast
      then have 1: "loop e T (drop k L) = Inr (butlast T @ q' # R')" using T by simp
      have 2: "loop e F (drop k L) =
          Inr (filter (\<lambda>item. files item \<noteq> []) (butlast T) @ q' # R')"
        unfolding F using k by blast
      from lhs rhs kl 1 2 show ?thesis
        unfolding w1_def [symmetric] by (simp add: load_pickle_def)
    qed
  qed
qed

theorem resume_after_split_witness:
  "snd (load_pickle (snd (engine ascii_env example_log
       (snd (engine ascii_env (take 25 example_log) \<lparr>pickle = None, disk = []\<rparr>)))))
   = snd (load_pickle (snd (engine ascii_env example_log \<lparr>pickle = None, disk = []\<rparr>)))"
proof -
  have t: "loop ascii_env [] (drop 23 (take 25 example_log)) =
      Inr [\<lparr>title = ustr ''A'', files = [joinpath (DUMP_DIR ascii_env) (ustr ''a'')]\<rparr>]"
    by (simp add: example_log_def header_def loop_body_classify line_evals append_to_last_def)
  show ?thesis
    using resume_after_split [where w = "\<lparr>pickle = None, disk = []\<rparr>" and k = 25
        and L = example_log and e = ascii_env, OF _ _ _ t]
    by (simp add: example_log_def header_def)
qed

theorem split_before_attachment_regroups:
  "snd (load_pickle (snd (engine ascii_env example_log
       (snd (engine ascii_env (take 26 example_log) \<lparr>pickle = None, disk = []\<rparr>)))))
     = [\<lparr>title = ustr ''A'', files = [joinpath (DUMP_DIR ascii_env) (ustr ''a''),
                                      joinpath (DUMP_DIR ascii_env) (ustr ''b'')]\<rparr>]
   \<and> snd (load_pickle (snd (engine ascii_env example_log \<lparr>pickle = None, disk = []\<rparr>)))
     = [\<lparr>title = ustr ''A'', files = [joinpath (DUMP_DIR ascii_env) (ustr ''a'')]\<rparr>,
        \<lparr>title = ustr ''B'', files = [joinpath (DUMP_DIR ascii_env) (ustr ''b'')]\<rparr>]"
  by (simp add: pickle_engine load_pickle_def example_log_def header_def loop_body_classify
      line_evals append_to_last_def)

text \<open>
  C5. The claim: the persisted \<open>last_line\<close> never decreases, and a run against an
  unchanged or a shorter log is a no-op. The script compares with \<open>==\<close>: on an
  unchanged log it stops before anything is written, on a shorter one it goes on and
  writes the smaller line count. So \<open>last_line\<close> does not decrease as long as the log
  does not shrink, and the run on an unchanged log returns the world as it was.
\<close>

theorem last_line_follows_log:
  "(pickle w = Some (n, T) \<longrightarrow> n \<le> length lines \<longrightarrow>
      (\<exists>n' T'. pickle (snd (engine e lines w)) = Some (n', T') \<and> n \<le> n'))
   \<and> (fst (load_pickle w) = length lines \<longrightarrow> engine e lines w = (Exit_no_new_lines, w))"
  by (auto simp: pickle_engine load_pickle_Some engine_no_new_lines split: sum.splits)

theorem last_line_follows_log_witness:
  "(\<exists>n' T'. pickle (snd (engine ascii_env example_log
        \<lparr>pickle = Some (25, [\<lparr>title = ustr ''A'',
                                files = [joinpath (DUMP_DIR ascii_env) (ustr ''a'')]\<rparr>]),
         disk = []\<rparr>))
        = Some (n', T') \<and> 25 \<le> n')
   \<and> engine ascii_env example_log \<lparr>pickle = Some (27, []), disk = []\<rparr>
       = (Exit_no_new_lines, \<lparr>pickle = Some (27, []), disk = []\<rparr>)"
  using last_line_follows_log [where e = ascii_env and lines = example_log and n = 25
      and T = "[\<lparr>title = ustr ''A'',
                  files = [joinpath (DUMP_DIR ascii_env) (ustr ''a'')]\<rparr>]"
      and w = "\<lparr>pickle = Some (25, [\<lparr>title = ustr ''A'',
                     files = [joinpath (DUMP_DIR ascii_env) (ustr ''a'')]\<rparr>]),
                disk = []\<rparr>"]
    last_line_follows_log [where e = ascii_env and lines = example_log
      and w = "\<lparr>pickle = Some (27, []), disk = []\<rparr>"]
  by (simp add: example_log_def header_def load_pickle_def)

theorem shorter_log_lowers_last_line:
  "pickle (snd (engine ascii_env (take 25 example_log)
       \<lparr>pickle = Some (27, [\<lparr>title = ustr ''A'',
                               files = [joinpath (DUMP_DIR ascii_env) (ustr ''a'')]\<rparr>]),
        disk = []\<rparr>))
   = Some (25, [\<lparr>title = ustr ''A'',
                 files = [joinpath (DUMP_DIR ascii_env) (ustr ''a'')]\<rparr>])"
  by (simp add: pickle_engine load_pickle_def example_log_def header_def)

text \<open>
  C6. Two runs in a row on the same log: the second changes neither the pickle nor the
  files, whatever the first did (first conjunct, for every world and every log); and a
  run whose resume index is the number of lines stops at once, with nothing written and
  nothing placed (second conjunct).
\<close>

theorem second_run_changes_nothing:
  "snd (engine e lines (snd (engine e lines w))) = snd (engine e lines w)
   \<and> (fst (load_pickle w) = length lines \<longrightarrow> engine e lines w = (Exit_no_new_lines, w))"
proof (intro conjI impI)
  show "snd (engine e lines (snd (engine e lines w))) = snd (engine e lines w)"
  proof (cases "fst (load_pickle w) = length lines")
    case True
    then show ?thesis by (simp add: engine_no_new_lines)
  next
    case False
    show ?thesis
    proof (cases "loop e (snd (load_pickle w)) (drop (fst (load_pickle w)) lines)")
      case (Inl err)
      with False have "engine e lines w = (Raised err, w)" by (simp add: engine_unfold)
      then show ?thesis by simp
    next
      case (Inr T1)
      with False have "pickle (snd (engine e lines w)) =
          Some (length lines, filter (\<lambda>item. files item \<noteq> []) T1)"
        by (simp add: pickle_engine)
      then have "fst (load_pickle (snd (engine e lines w))) = length lines"
        by (simp add: load_pickle_def)
      then show ?thesis by (simp add: engine_no_new_lines)
    qed
  qed
next
  assume "fst (load_pickle w) = length lines"
  then show "engine e lines w = (Exit_no_new_lines, w)" by (rule engine_no_new_lines)
qed


theorem second_run_changes_nothing_witness:
  "snd (engine ascii_env example_log
         (snd (engine ascii_env example_log \<lparr>pickle = None, disk = []\<rparr>)))
     = snd (engine ascii_env example_log \<lparr>pickle = None, disk = []\<rparr>)
   \<and> engine ascii_env example_log \<lparr>pickle = Some (27, []), disk = []\<rparr>
     = (Exit_no_new_lines, \<lparr>pickle = Some (27, []), disk = []\<rparr>)"
  using second_run_changes_nothing [where e = ascii_env and lines = example_log
      and w = "\<lparr>pickle = None, disk = []\<rparr>"]
    second_run_changes_nothing [where e = ascii_env and lines = example_log
      and w = "\<lparr>pickle = Some (27, []), disk = []\<rparr>"]
  by (simp add: example_log_def header_def load_pickle_def)

lemma split_on_absent: "c \<notin> set s \<Longrightarrow> split_on c s = [s]"
  by (induction s) auto

lemma joinpath_component:
  "component n \<Longrightarrow> joinpath base n = \<lparr>root = root base, parts = parts base @ [n]\<rparr>"
  by (cases n) (auto simp: component_def joinpath_def parse_path_def split_on_absent)

lemma name_joinpath_component: "component n \<Longrightarrow> name (joinpath base n) = n"
  by (simp add: joinpath_component name_def)

lemma suffix_of_name: "name p = name q \<Longrightarrow> suffix_of p = suffix_of q"
  by (simp add: suffix_of_def split: option.splits)

lemma name_with_suffix:
  "with_suffix file s = Inr converted \<Longrightarrow>
     name converted = take (length (name file) - length (suffix_of file)) (name file) @ s"
  by (auto simp: with_suffix_def name_def split: if_splits)

lemma with_suffix_component:
  "name file \<noteq> [] \<Longrightarrow> \<exists>converted. with_suffix file s = Inr converted"
  by (simp add: with_suffix_def)

lemma sorted_file_path_component:
  assumes "component (name file)"
  shows "sorted_file_path e tema file =
        Inr (joinpath (folder e tema)
               (if suffix_of file \<in> {ustr ''.ogg'', ustr ''.opus''}
                then take (length (name file) - length (suffix_of file)) (name file)
                       @ ustr ''.wav''
                else name file))"
proof -
  have s: "suffix_of (joinpath (folder e tema) (name file)) = suffix_of file"
    using assms by (intro suffix_of_name) (simp add: name_joinpath_component)
  from assms have "name file \<noteq> []" by (simp add: component_def)
  then obtain converted where c: "with_suffix file (ustr ''.wav'') = Inr converted"
    using with_suffix_component by blast
  show ?thesis
    using c name_with_suffix [OF c] by (simp add: sorted_file_path_def s Let_def)
qed




lemma name_n_opus: "name n_opus = ustr ''n.opus''"
  by (simp add: n_opus_def name_def eval_defs)

lemma name_m_txt: "name m_txt = ustr ''m.txt''"
  by (simp add: m_txt_def name_def eval_defs)

lemma suffix_n_opus: "suffix_of n_opus = ustr ''.opus''"
  by (simp add: suffix_of_def name_n_opus ustr_def)

lemma suffix_m_txt: "suffix_of m_txt = ustr ''.txt''"
  by (simp add: suffix_of_def name_m_txt ustr_def)

lemma folder_A:
  "folder ascii_env tema_A = \<lparr>root = [], parts = [ustr ''profe'', ustr ''sorted'', ustr ''A'']\<rparr>"
  by (simp add: folder_def tema_A_def eval_defs)

section \<open>Placement\<close>


lemma wav_n:
  "take (length (ustr ''n.opus'') - length (ustr ''.opus'')) (ustr ''n.opus'') @ ustr ''.wav''
     = ustr ''n.wav''"
  by (simp add: ustr_def)

lemma in_exts:
  "ustr ''.opus'' \<in> {ustr ''.ogg'', ustr ''.opus''}"
  "ustr ''.txt'' \<notin> {ustr ''.ogg'', ustr ''.opus''}"
  "ustr ''.txt'' \<noteq> ustr ''.ogg''" "ustr ''.txt'' \<noteq> ustr ''.opus''"
  by (simp_all add: ustr_def)

lemma comp_names:
  "component (ustr ''n.opus'')" "component (ustr ''m.txt'')" "component (ustr ''n.wav'')"
  by (simp_all add: component_def ustr_def)

lemma join_A: "component (ustr n) \<Longrightarrow> joinpath (folder ascii_env tema_A) (ustr n) = sorted_A n"
  by (simp add: joinpath_component folder_A sorted_A_def)


lemma place_files_append:
  "place_files e tema fs (xs @ ys) =
     (case place_files e tema fs xs of
        (Some err, fs1) \<Rightarrow> (Some err, fs1)
      | (None, fs1) \<Rightarrow> place_files e tema fs1 ys)"
  by (induction xs arbitrary: fs) (auto split: sum.splits)

lemma place_temas_append:
  "place_temas e fs (xs @ ys) =
     (case place_temas e fs xs of
        (Some err, fs1) \<Rightarrow> (Some err, fs1)
      | (None, fs1) \<Rightarrow> place_temas e fs1 ys)"
  by (induction xs arbitrary: fs) (auto split: prod.splits option.splits)

lemma place_file_missing_source:
  assumes "sorted_file_path e tema file = Inr p" and "p \<notin> set fs" and "file \<notin> set fs"
  shows "place_file e tema fs file =
           Inl (if joinpath (folder e tema) (name file) \<in> set fs then ShutilError
                else FileNotFoundError)"
  using assms by (simp add: place_file_def shutil_move_def Let_def)

text \<open>
  C4. The claim: an attachment whose source file is gone, and whose prospective
  destination does not exist either, is skipped, and placement goes on. The script has
  no \<open>try\<close>: \<open>shutil.move\<close> raises, and the run ends there. The topics \<open>before\<close>
  are placed, the folder of \<open>tema\<close> is there, its files \<open>placed\<close> are placed, and at
  \<open>file\<close> the run stops with the file system as it stood; \<open>rest\<close> and \<open>later\<close> are
  not looked at.
\<close>

theorem missing_source_aborts:
  assumes "place_temas e (disk w) before = (None, fs1)"
    and "ensure_folder e fs1 tema = Inr fs2"
    and "files tema = placed @ file # rest"
    and "place_files e tema fs2 placed = (None, fs)"
    and "sorted_file_path e tema file = Inr p" and "p \<notin> set fs" and "file \<notin> set fs"
  shows "\<exists>err. (err = FileNotFoundError \<or> err = ShutilError)
           \<and> place_and_convert e (before @ tema # later) w = (Raised err, w\<lparr>disk := fs\<rparr>)"
proof -
  let ?err = "if joinpath (folder e tema) (name file) \<in> set fs then ShutilError
              else FileNotFoundError"
  have "place_file e tema fs file = Inl ?err"
    using assms(5-7) by (rule place_file_missing_source)
  then have "place_files e tema fs2 (placed @ file # rest) = (Some ?err, fs)"
    using assms(4) by (simp add: place_files_append)
  then have "place_tema e fs1 tema = (Some ?err, fs)"
    using assms(2,3) by (simp add: place_tema_def)
  then have "place_temas e (disk w) (before @ tema # later) = (Some ?err, fs)"
    using assms(1) by (simp add: place_temas_append)
  then have "place_and_convert e (before @ tema # later) w = (Raised ?err, w\<lparr>disk := fs\<rparr>)"
    by (simp add: place_and_convert_def)
  then show ?thesis by (intro exI[of _ ?err]) simp
qed


lemma sorted_path_n_opus: "sorted_file_path ascii_env tema_A n_opus = Inr (sorted_A ''n.wav'')"
  by (simp add: sorted_file_path_component name_n_opus suffix_n_opus comp_names in_exts wav_n
      join_A)

lemma sorted_path_m_txt: "sorted_file_path ascii_env tema_A m_txt = Inr (sorted_A ''m.txt'')"
  by (simp add: sorted_file_path_component name_m_txt suffix_m_txt comp_names in_exts join_A)

lemma paths_differ:
  "n_opus \<noteq> m_txt" "n_opus \<noteq> folder ascii_env tema_A" "m_txt \<noteq> folder ascii_env tema_A"
  "sorted_A ''n.wav'' \<noteq> m_txt" "sorted_A ''n.wav'' \<noteq> folder ascii_env tema_A"
  "sorted_A ''n.opus'' \<noteq> m_txt" "sorted_A ''n.opus'' \<noteq> folder ascii_env tema_A"
  unfolding folder_A by (simp_all add: n_opus_def m_txt_def sorted_A_def eval_defs)

lemma files_A: "files tema_A = [n_opus, m_txt]"
  by (simp add: tema_A_def)

theorem missing_source_aborts_witness:
  "\<exists>err. (err = FileNotFoundError \<or> err = ShutilError)
     \<and> place_and_convert ascii_env ([] @ tema_A # [])
          \<lparr>pickle = None, disk = [folder ascii_env tema_A, m_txt]\<rparr>
       = (Raised err, \<lparr>pickle = None, disk = [folder ascii_env tema_A, m_txt]\<rparr>
                        \<lparr>disk := [folder ascii_env tema_A, m_txt]\<rparr>)"
proof -
  let ?fs = "[folder ascii_env tema_A, m_txt]"
  let ?w = "\<lparr>pickle = None, disk = ?fs\<rparr>"
  have 1: "place_temas ascii_env (disk ?w) [] = (None, ?fs)" by simp
  have 2: "ensure_folder ascii_env ?fs tema_A = Inr ?fs" by (simp add: ensure_folder_def)
  have 3: "files tema_A = [] @ n_opus # [m_txt]" by (simp add: tema_A_def)
  have 4: "place_files ascii_env tema_A ?fs [] = (None, ?fs)" by simp
  have 5: "sorted_A ''n.wav'' \<notin> set ?fs" using paths_differ by simp
  have 6: "n_opus \<notin> set ?fs" using paths_differ by simp
  show ?thesis
    by (rule missing_source_aborts [OF 1 2 3 4 sorted_path_n_opus 5 6])
qed

theorem missing_source_stops_placement:
  "place_and_convert ascii_env [tema_A]
       \<lparr>pickle = None, disk = [folder ascii_env tema_A, m_txt]\<rparr>
     = (Raised FileNotFoundError, \<lparr>pickle = None, disk = [folder ascii_env tema_A, m_txt]\<rparr>)"
proof -
  let ?fs = "[folder ascii_env tema_A, m_txt]"
  have 5: "sorted_A ''n.wav'' \<notin> set ?fs" using paths_differ by simp
  have 6: "n_opus \<notin> set ?fs" using paths_differ by simp
  have 7: "joinpath (folder ascii_env tema_A) (name n_opus) \<notin> set ?fs"
    using paths_differ by (simp add: name_n_opus comp_names join_A)
  have "place_file ascii_env tema_A ?fs n_opus = Inl FileNotFoundError"
    using place_file_missing_source [OF sorted_path_n_opus 5 6] 7 by simp
  then show ?thesis
    by (simp add: place_and_convert_def place_tema_def ensure_folder_def files_A)
qed

lemma fst_place_and_convert:
  "fst (place_and_convert e T w) \<noteq> Exit_no_files \<and> fst (place_and_convert e T w) \<noteq> Exit_no_chat"
  by (simp add: place_and_convert_def split: prod.splits option.splits)

lemma fst_engine:
  "fst (engine e lines w) \<noteq> Exit_no_files \<and> fst (engine e lines w) \<noteq> Exit_no_chat"
  by (simp add: engine_unfold fst_place_and_convert split: sum.splits)

section \<open>Missing input\<close>

text \<open>
  C9. When a required input is absent the run stops early with a message and the
  pickle stays as it was. No archive in the source directory: the script prints and
  exits before anything is touched (first conjunct). The chat file missing once the
  archives are moved and extracted: it prints and exits, having changed only the
  directories (second). And whenever the script ends in one of these two exits, the
  pickle is the one it found (third).
\<close>

theorem missing_input_exits:
  "(source_zips e (disk w) = [] \<longrightarrow> script e lines w = (Exit_no_files, w))
   \<and> (source_zips e (disk w) \<noteq> [] \<longrightarrow>
        move_zips e (disk w) (source_zips e (disk w)) = (None, fs1) \<longrightarrow>
        CHAT_FILE e \<notin> set (extract_zips e fs1) \<longrightarrow>
        script e lines w = (Exit_no_chat, w\<lparr>disk := extract_zips e fs1\<rparr>))
   \<and> (fst (script e lines w) = Exit_no_files \<or> fst (script e lines w) = Exit_no_chat \<longrightarrow>
        pickle (snd (script e lines w)) = pickle w)"
proof (intro conjI impI)
  show "source_zips e (disk w) = [] \<Longrightarrow> script e lines w = (Exit_no_files, w)"
    by (simp add: script_def)
  show "source_zips e (disk w) \<noteq> [] \<Longrightarrow>
        move_zips e (disk w) (source_zips e (disk w)) = (None, fs1) \<Longrightarrow>
        CHAT_FILE e \<notin> set (extract_zips e fs1) \<Longrightarrow>
        script e lines w = (Exit_no_chat, w\<lparr>disk := extract_zips e fs1\<rparr>)"
    by (simp add: script_def)
  show "fst (script e lines w) = Exit_no_files \<or> fst (script e lines w) = Exit_no_chat \<Longrightarrow>
        pickle (snd (script e lines w)) = pickle w"
    using fst_engine
    by (auto simp: script_def split: if_splits prod.splits option.splits)
qed

lemma x_zip_eval: "x_zip = \<lparr>root = [], parts = [ustr ''zips'', ustr ''x_profe.zip'']\<rparr>"
  by (simp add: x_zip_def eval_defs)

lemma source_zips_x: "source_zips ascii_env [x_zip] = [x_zip]"
  by (simp add: source_zips_def glob_children_def x_zip_eval name_def eval_defs suffix_Cons)

lemma profe_eval: "PROFE_DIR ascii_env = \<lparr>root = [], parts = [ustr ''profe'']\<rparr>"
  by (simp add: eval_defs)

lemma makedirs_profe: "makedirs [x_zip] (PROFE_DIR ascii_env) = Inr [x_zip, PROFE_DIR ascii_env]"
  unfolding profe_eval x_zip_eval by (simp add: makedirs_def ustr_def)

lemma target_x_zip: "joinpath (PROFE_DIR ascii_env) (name x_zip) = profe_x_zip"
  unfolding profe_eval x_zip_eval profe_x_zip_def by (simp add: name_def eval_defs)

lemma zips_differ:
  "PROFE_DIR ascii_env \<noteq> x_zip" "profe_x_zip \<noteq> x_zip"
  "profe_x_zip \<noteq> PROFE_DIR ascii_env"
  unfolding profe_eval x_zip_eval profe_x_zip_def by (simp_all add: ustr_def)

lemma move_zips_x:
  "move_zips ascii_env [x_zip] [x_zip] = (None, [PROFE_DIR ascii_env, profe_x_zip])"
  using zips_differ by (simp add: makedirs_profe target_x_zip shutil_move_as_def)

lemma glob_profe:
  "glob_children [PROFE_DIR ascii_env, profe_x_zip] (PROFE_DIR ascii_env) (ustr ''profe.zip'')
     = [profe_x_zip]"
  unfolding profe_eval profe_x_zip_def
  by (simp add: glob_children_def name_def ustr_def suffix_Cons)

lemma extract_zips_x:
  "extract_zips ascii_env [PROFE_DIR ascii_env, profe_x_zip] = [PROFE_DIR ascii_env, profe_x_zip]"
  by (simp add: extract_zips_def glob_profe) (simp add: ascii_env_def)

lemma chat_file_absent: "CHAT_FILE ascii_env \<notin> set [PROFE_DIR ascii_env, profe_x_zip]"
  unfolding profe_eval profe_x_zip_def by (simp add: CHAT_FILE_def eval_defs)

theorem missing_input_exits_witness:
  "script ascii_env example_log \<lparr>pickle = Some (25, []), disk = []\<rparr>
     = (Exit_no_files, \<lparr>pickle = Some (25, []), disk = []\<rparr>)
   \<and> script ascii_env example_log \<lparr>pickle = Some (25, []), disk = [x_zip]\<rparr>
     = (Exit_no_chat, \<lparr>pickle = Some (25, []), disk = [PROFE_DIR ascii_env, profe_x_zip]\<rparr>)"
proof -
  have a: "source_zips ascii_env (disk \<lparr>pickle = Some (25, []), disk = []\<rparr>) = []"
    by (simp add: source_zips_def glob_children_def)
  have b: "source_zips ascii_env (disk \<lparr>pickle = Some (25, []), disk = [x_zip]\<rparr>) \<noteq> []"
    by (simp add: source_zips_x)
  have c: "move_zips ascii_env (disk \<lparr>pickle = Some (25, []), disk = [x_zip]\<rparr>)
        (source_zips ascii_env (disk \<lparr>pickle = Some (25, []), disk = [x_zip]\<rparr>))
      = (None, [PROFE_DIR ascii_env, profe_x_zip])"
    by (simp add: source_zips_x move_zips_x del: move_zips.simps)
  have d: "CHAT_FILE ascii_env \<notin> set (extract_zips ascii_env [PROFE_DIR ascii_env, profe_x_zip])"
    unfolding extract_zips_x by (rule chat_file_absent)
  from missing_input_exits [of ascii_env "\<lparr>pickle = Some (25, []), disk = []\<rparr>" example_log,
      THEN conjunct1, rule_format, OF a]
    missing_input_exits [of ascii_env "\<lparr>pickle = Some (25, []), disk = [x_zip]\<rparr>"
      example_log, THEN conjunct2, THEN conjunct1, rule_format, OF b c d]
  show ?thesis by (simp add: extract_zips_x)
qed







section \<open>The accumulated topic list\<close>






end
